theory Spec2Isabelle
  imports Complex_Main
begin

section \<open>Strings and characters\<close>

text \<open>
  Python strings are modelled as HOL strings (lists of 8-bit characters); a string with
  characters beyond ASCII is its UTF-8 encoding. Every character the modelled code tests
  for is written out below.
\<close>

definition c_backslash :: char where "c_backslash = CHR 0x5C"
definition c_dquote :: char where "c_dquote = CHR 0x22"
definition c_apostrophe :: char where "c_apostrophe = CHR 0x27"
definition c_newline :: char where "c_newline = CHR 0x0A"
definition c_dot :: char where "c_dot = CHR ''.''"
definition c_bang :: char where "c_bang = CHR ''!''"
definition c_space :: char where "c_space = CHR '' ''"

text \<open>\<open>str.lstrip(chars)\<close> and \<open>str.rstrip(chars)\<close>, with the character set as a predicate.\<close>

definition lstrip :: "(char \<Rightarrow> bool) \<Rightarrow> string \<Rightarrow> string" where
  "lstrip P s = dropWhile P s"

fun rstrip :: "(char \<Rightarrow> bool) \<Rightarrow> string \<Rightarrow> string" where
  "rstrip P [] = []"
| "rstrip P (c # cs) = (let r = rstrip P cs in if r = [] \<and> P c then [] else c # r)"

definition strip :: "(char \<Rightarrow> bool) \<Rightarrow> string \<Rightarrow> string" where
  "strip P s = rstrip P (lstrip P s)"

section \<open>Naming: \<open>utils/naming.py\<close>\<close>

subsection \<open>\<open>sanitize_filename\<close>\<close>

text \<open>The character class \<open>[\\/:*?"<>|]\<close> of the first substitution.\<close>

definition illegal_chars :: "char set" where
  "illegal_chars = {c_backslash, CHR ''/'', CHR '':'', CHR ''*'', CHR ''?'', c_dquote,
     CHR ''<'', CHR ''>'', CHR ''|''}"

text \<open>\<open>re.sub(illegal_chars, '.', name)\<close>: every character of the class becomes a dot.\<close>

definition replace_illegal :: "string \<Rightarrow> string" where
  "replace_illegal s = map (\<lambda>c. if c \<in> illegal_chars then c_dot else c) s"

text \<open>\<open>cleaned.replace('~', '-')\<close> and \<open>cleaned.replace("'", "")\<close>.\<close>

definition tilde_to_dash :: "string \<Rightarrow> string" where
  "tilde_to_dash s = map (\<lambda>c. if c = CHR ''~'' then CHR ''-'' else c) s"

definition remove_apostrophes :: "string \<Rightarrow> string" where
  "remove_apostrophes s = filter (\<lambda>c. c \<noteq> c_apostrophe) s"

text \<open>
  \<open>re.sub(r'!+$', '', cleaned)\<close>. Without the MULTILINE flag \<open>$\<close> holds at the end of
  the string and also just before a newline that is the last character, so the run of
  exclamation marks removed is the one at the very end, or the one in front of a final
  newline. There is at most one match.
\<close>

definition sub_trailing_bangs :: "string \<Rightarrow> string" where
  "sub_trailing_bangs s =
     (if s \<noteq> [] \<and> last s = c_newline
      then rstrip (\<lambda>c. c = c_bang) (butlast s) @ [c_newline]
      else rstrip (\<lambda>c. c = c_bang) s)"

text \<open>\<open>re.sub(r'^!+', '', cleaned)\<close>.\<close>

definition sub_leading_bangs :: "string \<Rightarrow> string" where
  "sub_leading_bangs s = dropWhile (\<lambda>c. c = c_bang) s"

text \<open>\<open>re.sub(r'\.{2,}', '.', cleaned)\<close>: each maximal run of two or more dots becomes one dot.\<close>

fun collapse_dots :: "string \<Rightarrow> string" where
  "collapse_dots (a # b # cs) =
     (if a = c_dot \<and> b = c_dot then collapse_dots (b # cs) else a # collapse_dots (b # cs))"
| "collapse_dots cs = cs"

definition is_dot_or_space :: "char \<Rightarrow> bool" where
  "is_dot_or_space c \<longleftrightarrow> c = c_dot \<or> c = c_space"

definition sanitize_filename :: "string \<Rightarrow> string" where
  "sanitize_filename name =
     (let cleaned = replace_illegal name;
          cleaned = tilde_to_dash cleaned;
          cleaned = remove_apostrophes cleaned;
          cleaned = sub_trailing_bangs cleaned;
          cleaned = sub_leading_bangs cleaned;
          cleaned = collapse_dots cleaned
      in strip is_dot_or_space cleaned)"

text \<open>A run of two or more consecutive dots.\<close>

fun has_dot_run :: "string \<Rightarrow> bool" where
  "has_dot_run (a # b # cs) = ((a = c_dot \<and> b = c_dot) \<or> has_dot_run (b # cs))"
| "has_dot_run cs = False"

section \<open>Episode resolver: \<open>agents/models/tmdb_mapping.py\<close>\<close>

text \<open>Decimal printing of Python integers (\<open>str(n)\<close>, and \<open>{n}\<close> in an f-string).\<close>

definition digit_char :: "nat \<Rightarrow> char" where
  "digit_char d = ''0123456789'' ! d"

fun str_nat :: "nat \<Rightarrow> string" where
  "str_nat n = (if n < 10 then [digit_char n] else str_nat (n div 10) @ [digit_char (n mod 10)])"

declare str_nat.simps [simp del]

definition str_int :: "int \<Rightarrow> string" where
  "str_int i = (if i < 0 then CHR ''-'' # str_nat (nat (- i)) else str_nat (nat i))"

record EpisodeInfo =
  season :: int
  episode_in_season :: int
  tmdb_episode :: int
  cumulative :: int

record TMDBMapping =
  tmdb_id :: int
  title :: string
  media_type :: string
  by_cumulative :: "int \<rightharpoonup> EpisodeInfo"
  by_season_episode :: "(int \<times> int) \<rightharpoonup> EpisodeInfo"
  total_seasons :: int
  total_episodes :: int

text \<open>
  The metadata collaborator, as far as \<open>build_episode_mapping\<close> reads it. A season is the
  dictionary \<open>get_tv_season\<close> returns, of which only the key \<open>episodes\<close> is read (absent:
  \<open>None\<close>); an episode is a dictionary of which only \<open>episode_number\<close> is read. A
  failed fetch is \<open>None\<close>.
\<close>

record episode_dict =
  episode_number :: "int option"

record season_dict =
  episodes :: "episode_dict list option"

record TMDBMediaInfo =
  info_title :: string
  info_title_zh :: "string option"
  seasons_count :: "int option"

record tmdb_service =
  get_tv_details :: "int \<Rightarrow> TMDBMediaInfo option"
  get_tv_season :: "int \<Rightarrow> int \<Rightarrow> season_dict option"

text \<open>The local variable \<open>cumulative\<close> and the two indexes being filled.\<close>

record build_state =
  bs_cumulative :: int
  bs_by_cumulative :: "int \<rightharpoonup> EpisodeInfo"
  bs_by_season_episode :: "(int \<times> int) \<rightharpoonup> EpisodeInfo"

text \<open>The inner loop \<open>for i, ep in enumerate(episodes)\<close>, from index \<open>i\<close> on.\<close>

fun episode_loop :: "int \<Rightarrow> int \<Rightarrow> episode_dict list \<Rightarrow> build_state \<Rightarrow> build_state" where
  "episode_loop season_num i [] st = st"
| "episode_loop season_num i (ep # eps) st =
     (let c = bs_cumulative st + 1;
          tmdb_ep = (case episode_number ep of Some n \<Rightarrow> n | None \<Rightarrow> i + 1);
          episode_info = \<lparr>season = season_num, episode_in_season = i + 1,
                          tmdb_episode = tmdb_ep, cumulative = c\<rparr>
      in episode_loop season_num (i + 1) eps
           \<lparr>bs_cumulative = c,
            bs_by_cumulative = (bs_by_cumulative st)(c \<mapsto> episode_info),
            bs_by_season_episode =
              (bs_by_season_episode st)((season_num, i + 1) \<mapsto> episode_info)\<rparr>)"

text \<open>
  The outer loop \<open>for season_num in range(1, seasons_count + 1)\<close>, over the season numbers
  still to visit. A failed fetch, an empty dictionary and an empty episode list are each
  skipped by \<open>continue\<close>.
\<close>

fun season_loop :: "tmdb_service \<Rightarrow> int \<Rightarrow> int list \<Rightarrow> build_state \<Rightarrow> build_state" where
  "season_loop svc tid [] st = st"
| "season_loop svc tid (season_num # rest) st =
     (case get_tv_season svc tid season_num of
        None \<Rightarrow> season_loop svc tid rest st
      | Some season_info \<Rightarrow>
          (case episodes season_info of
             None \<Rightarrow> season_loop svc tid rest st
           | Some eps \<Rightarrow>
               if eps = [] then season_loop svc tid rest st
               else season_loop svc tid rest (episode_loop season_num 0 eps st)))"

definition build_episode_mapping :: "int \<Rightarrow> tmdb_service \<Rightarrow> TMDBMapping option" where
  "build_episode_mapping tid svc =
     (case get_tv_details svc tid of
        None \<Rightarrow> None
      | Some tv_info \<Rightarrow>
          (let n = (case seasons_count tv_info of Some k \<Rightarrow> k | None \<Rightarrow> 0);
               st = season_loop svc tid [1..n]
                      \<lparr>bs_cumulative = 0, bs_by_cumulative = Map.empty,
                       bs_by_season_episode = Map.empty\<rparr>
           in Some \<lparr>tmdb_id = tid,
                    title = (case info_title_zh tv_info of
                               Some t \<Rightarrow> if t \<noteq> [] then t
                                         else if info_title tv_info \<noteq> [] then info_title tv_info
                                         else ''TMDB:'' @ str_int tid
                             | None \<Rightarrow> if info_title tv_info \<noteq> [] then info_title tv_info
                                       else ''TMDB:'' @ str_int tid),
                    media_type = ''tv'',
                    by_cumulative = bs_by_cumulative st,
                    by_season_episode = bs_by_season_episode st,
                    total_seasons = n,
                    total_episodes = bs_cumulative st\<rparr>))"

text \<open>
  The loop invariant of the resolver while season \<open>s\<close> is being read and its first
  \<open>i\<close> episodes are stored: the cumulative numbers are exactly \<open>1..cumulative\<close>, each
  stored row carries its own key, is found again under its season and position, and
  belongs to an earlier season or to the part of season \<open>s\<close> already read.
\<close>

definition resolver_inv :: "build_state \<Rightarrow> int \<Rightarrow> int \<Rightarrow> bool" where
  "resolver_inv st s i \<longleftrightarrow>
     0 \<le> bs_cumulative st \<and> dom (bs_by_cumulative st) = {1..bs_cumulative st} \<and>
     (\<forall>c E. bs_by_cumulative st c = Some E \<longrightarrow>
        cumulative E = c \<and> bs_by_season_episode st (season E, episode_in_season E) = Some E \<and>
        (season E < s \<or> (season E = s \<and> episode_in_season E \<le> i)))"

text \<open>
  A metadata service for series 7 that reports three seasons: the fetch of season 1
  fails, season 2 has two episodes (the second without a declared number), season 3 has
  an empty episode list.
\<close>

definition example_service :: tmdb_service where
  "example_service =
     \<lparr>get_tv_details = (\<lambda>tid. if tid = 7
          then Some \<lparr>info_title = ''Show'', info_title_zh = None, seasons_count = Some 3\<rparr>
          else None),
      get_tv_season = (\<lambda>tid s. if s = 2
          then Some \<lparr>episodes = Some [\<lparr>episode_number = Some 5\<rparr>, \<lparr>episode_number = None\<rparr>]\<rparr>
          else if s = 3 then Some \<lparr>episodes = Some []\<rparr>
          else None)\<rparr>"

section \<open>Regular expressions, as the classifier uses them\<close>

















section \<open>Classifier: \<open>agents/classifier.py\<close>\<close>

datatype py_error = TypeError | ValueError | IndexError | KeyError






























section \<open>STRM generation: \<open>agents/tools/strm_tools.py\<close>\<close>

subsection \<open>The play URL\<close>

text \<open>
  \<open>urllib.parse.quote(string, safe)\<close>: the string is encoded as UTF-8 (which the
  strings here already are) and every byte that is neither in the set the library
  always keeps (letters, digits and \<open>_.-~\<close>) nor in \<open>safe\<close> is written by
  \<open>'%{:02X}'.format(b)\<close>: a percent sign and the byte in upper-case hexadecimal, padded
  with zeros to two digits.
\<close>

definition always_safe :: "char set" where
  "always_safe = set (''ABCDEFGHIJKLMNOPQRSTUVWXYZ'' @ ''abcdefghijklmnopqrstuvwxyz''
     @ ''0123456789'' @ ''_.-~'')"

text \<open>One hexadecimal digit, in upper case: \<open>0\<close> to \<open>9\<close>, then \<open>A\<close> to \<open>F\<close>.\<close>

definition hex_digit :: "nat \<Rightarrow> char" where
  "hex_digit d = (if d < 10 then char_of (of_char CHR ''0'' + d)
                  else char_of (of_char CHR ''A'' + (d - 10)))"

fun hex_nat :: "nat \<Rightarrow> string" where
  "hex_nat n = (if n < 16 then [hex_digit n] else hex_nat (n div 16) @ [hex_digit (n mod 16)])"

declare hex_nat.simps [simp del]

text \<open>The format \<open>{:02X}\<close>.\<close>

definition fmt_02X :: "nat \<Rightarrow> string" where
  "fmt_02X n = (let h = hex_nat n in replicate (2 - length h) CHR ''0'' @ h)"

definition percent :: "char \<Rightarrow> string" where
  "percent c = CHR ''%'' # fmt_02X (of_char c)"

definition quote :: "string \<Rightarrow> string \<Rightarrow> string" where
  "quote s safe = concat (map (\<lambda>c. if c \<in> always_safe \<union> set safe then [c] else percent c) s)"

text \<open>The constant \<open>ENCODE_URI_SAFE\<close>.\<close>

definition ENCODE_URI_SAFE :: string where
  "ENCODE_URI_SAFE = ''-_.!~*'' @ [c_apostrophe] @ ''();/?:@&=+$,#''"

definition build_play_url :: "string \<Rightarrow> string \<Rightarrow> string \<Rightarrow> string" where
  "build_play_url base_url path storage_type =
     (let encoded_path = quote path ENCODE_URI_SAFE;
          base = rstrip (\<lambda>c. c = CHR ''/'') base_url
      in if storage_type = ''alist'' then base @ ''/d'' @ encoded_path
         else base @ ''/dav'' @ encoded_path)"

text \<open>\<open>storage_config\<close>, as far as \<open>_generate_strm_content\<close> reads it.\<close>

record storage_config =
  sc_url :: "string option"
  sc_type :: "string option"

definition generate_strm_content :: "storage_config \<Rightarrow> string \<Rightarrow> string" where
  "generate_strm_content cfg path =
     (let base_url = (case sc_url cfg of Some u \<Rightarrow> u | None \<Rightarrow> []);
          storage_type = (case sc_type cfg of Some t \<Rightarrow> t | None \<Rightarrow> ''webdav'')
      in build_play_url base_url path storage_type)"

text \<open>
  What the specification says of \<open>encodeURI\<close>, written independently of \<open>quote\<close>: the
  letters and digits of ASCII and the listed punctuation stay as they are; every other
  byte \<open>b\<close> becomes a percent sign followed by the two upper-case hexadecimal digits of
  \<open>b\<close>, the high one first.
\<close>

definition encodeURI_unescaped :: "char set" where
  "encodeURI_unescaped =
     set ''abcdefghijklmnopqrstuvwxyzABCDEFGHIJKLMNOPQRSTUVWXYZ0123456789''
     \<union> {CHR ''-'', CHR ''_'', CHR ''.'', CHR ''!'', CHR ''~'', CHR ''*'', CHR 0x27,
        CHR ''('', CHR '')'', CHR '';'', CHR ''/'', CHR ''?'', CHR '':'', CHR ''@'', CHR ''&'',
        CHR ''='', CHR ''+'', CHR ''$'', CHR '','', CHR ''#''}"

definition encodeURI_char :: "char \<Rightarrow> string" where
  "encodeURI_char c =
     (if c \<in> encodeURI_unescaped then [c]
      else [CHR ''%'', ''0123456789ABCDEF'' ! (of_char c div 16),
            ''0123456789ABCDEF'' ! (of_char c mod 16)])"

subsection \<open>Subtitle tasks\<close>

























subsection \<open>Retrying failed uploads\<close>

text \<open>
  An entry of \<open>failed_uploads\<close>: a dictionary, each key of which may be absent. The two
  storage services are the collaborators of the retry: reading a file gives its content
  or \<open>None\<close>, writing gives a success flag, and either may raise, which is the left
  summand with the text of the exception. Both act on the state \<open>'w\<close> of the outside
  world, and every call is recorded.
\<close>

record failed_item =
  item_type :: "string option"
  item_source_path :: "string option"
  item_target_path :: "string option"
  item_error :: "string option"

record 'w storage_service =
  get_file_content :: "string \<Rightarrow> 'w \<Rightarrow> (string + string option) \<times> 'w"
  put_file_content :: "string \<Rightarrow> string \<Rightarrow> 'w \<Rightarrow> (string + bool) \<times> 'w"

datatype storage_call = GetContent string | PutContent string string

record 'w retry_state =
  world :: 'w
  calls :: "storage_call list"
  success_count :: nat
  error_count :: nat
  still_failed :: "failed_item list"

definition msg_download_empty :: string where
  "msg_download_empty =
    [CHR 0xE4, CHR 0xB8, CHR 0x8B, CHR 0xE8, CHR 0xBD, CHR 0xBD, CHR 0xE5, CHR 0xA4,
     CHR 0xB1, CHR 0xE8, CHR 0xB4, CHR 0xA5, CHR 0xEF, CHR 0xBC, CHR 0x88, CHR 0xE8,
     CHR 0xBF, CHR 0x94, CHR 0xE5, CHR 0x9B, CHR 0x9E, CHR 0xE7, CHR 0xA9, CHR 0xBA,
     CHR 0xE5, CHR 0x86, CHR 0x85, CHR 0xE5, CHR 0xAE, CHR 0xB9, CHR 0xEF, CHR 0xBC,
     CHR 0x89]"

definition msg_upload_failed :: string where
  "msg_upload_failed =
    [CHR 0xE4, CHR 0xB8, CHR 0x8A, CHR 0xE4, CHR 0xBC, CHR 0xA0, CHR 0xE5, CHR 0xA4,
     CHR 0xB1, CHR 0xE8, CHR 0xB4, CHR 0xA5, CHR 0xEF, CHR 0xBC, CHR 0x88, CHR 0x41,
     CHR 0x50, CHR 0x49, CHR 0xE8, CHR 0xBF, CHR 0x94, CHR 0xE5, CHR 0x9B, CHR 0x9E,
     CHR 0xE5, CHR 0xA4, CHR 0xB1, CHR 0xE8, CHR 0xB4, CHR 0xA5, CHR 0xEF, CHR 0xBC,
     CHR 0x89]"

text \<open>The entry appended to \<open>still_failed\<close>, and the bookkeeping of one failure.\<close>

definition failed_entry :: "string \<Rightarrow> string \<Rightarrow> string \<Rightarrow> failed_item" where
  "failed_entry source target error_msg =
     \<lparr>item_type = Some ''subtitle'', item_source_path = Some source,
      item_target_path = Some target, item_error = Some error_msg\<rparr>"

definition record_failure ::
  "string \<Rightarrow> string \<Rightarrow> string \<Rightarrow> 'w retry_state \<Rightarrow> 'w retry_state" where
  "record_failure source target error_msg st =
     st\<lparr>error_count := error_count st + 1,
        still_failed := still_failed st @ [failed_entry source target error_msg]\<rparr>"

text \<open>
  The body of the \<open>try\<close> block for one subtitle entry: download, and when there is
  content, upload. An exception of either call is caught and recorded with its text.
\<close>

definition retry_one ::
  "'w storage_service \<Rightarrow> 'w storage_service \<Rightarrow> string \<Rightarrow> string \<Rightarrow> 'w retry_state
   \<Rightarrow> 'w retry_state" where
  "retry_one src tgt source target st =
     (case get_file_content src source (world st) of
        (Inl e, w) \<Rightarrow>
          record_failure source target e
            (st\<lparr>world := w, calls := calls st @ [GetContent source]\<rparr>)
      | (Inr content, w) \<Rightarrow>
          (let st1 = st\<lparr>world := w, calls := calls st @ [GetContent source]\<rparr>
           in if content = None \<or> content = Some []
              then record_failure source target msg_download_empty st1
              else
                (case put_file_content tgt target (the content) w of
                   (Inl e, w') \<Rightarrow>
                     record_failure source target e
                       (st1\<lparr>world := w',
                            calls := calls st1 @ [PutContent target (the content)]\<rparr>)
                 | (Inr success, w') \<Rightarrow>
                     (let st2 = st1\<lparr>world := w',
                                    calls := calls st1 @ [PutContent target (the content)]\<rparr>
                      in if success then st2\<lparr>success_count := success_count st2 + 1\<rparr>
                         else record_failure source target msg_upload_failed st2))))"

text \<open>
  The loop \<open>for item in failed_uploads\<close>. An entry whose type is not \<open>subtitle\<close> is
  passed over by \<open>continue\<close>. The two paths are read with \<open>item[...]\<close> in front of the
  \<open>try\<close>, so an absent key raises KeyError out of the loop.
\<close>

fun retry_loop ::
  "'w storage_service \<Rightarrow> 'w storage_service \<Rightarrow> failed_item list \<Rightarrow> 'w retry_state
   \<Rightarrow> py_error + 'w retry_state" where
  "retry_loop src tgt [] st = Inr st"
| "retry_loop src tgt (item # rest) st =
     (if item_type item \<noteq> Some ''subtitle'' then retry_loop src tgt rest st
      else
        (case item_source_path item of
           None \<Rightarrow> Inl KeyError
         | Some source \<Rightarrow>
             (case item_target_path item of
                None \<Rightarrow> Inl KeyError
              | Some target \<Rightarrow> retry_loop src tgt rest (retry_one src tgt source target st))))"

text \<open>
  The session state as far as the retry reads and writes it (\<open>None\<close>: the key is
  absent), the message of the response by its kind and the numbers printed in it, and
  the response: message, the \<open>failed_uploads\<close> key of \<open>state_update\<close> if there is one,
  the world afterwards and the storage calls made.
\<close>

record session_state =
  st_failed_uploads :: "failed_item list option"

datatype retry_message =
    NothingToRetry
  | NotConnected
  | RetryReport nat nat nat "failed_item list"

record 'w retry_response =
  message :: retry_message
  update_failed_uploads :: "failed_item list option"
  world_after :: 'w
  storage_calls :: "storage_call list"

definition retry_failed_uploads ::
  "session_state option \<Rightarrow> 'w storage_service option \<Rightarrow> 'w storage_service option \<Rightarrow> 'w
   \<Rightarrow> py_error + 'w retry_response" where
  "retry_failed_uploads state source_service target_service w =
     (let failed_uploads =
            (case state of
               None \<Rightarrow> []
             | Some s \<Rightarrow> (case st_failed_uploads s of None \<Rightarrow> [] | Some l \<Rightarrow> l))
      in if failed_uploads = []
         then Inr \<lparr>message = NothingToRetry, update_failed_uploads = None,
                   world_after = w, storage_calls = []\<rparr>
         else
           (case (source_service, target_service) of
              (Some src, Some tgt) \<Rightarrow>
                (case retry_loop src tgt failed_uploads
                        \<lparr>world = w, calls = [], success_count = 0, error_count = 0,
                         still_failed = []\<rparr> of
                   Inl e \<Rightarrow> Inl e
                 | Inr st \<Rightarrow>
                     Inr \<lparr>message = RetryReport (length failed_uploads) (success_count st)
                                      (error_count st) (still_failed st),
                          update_failed_uploads =
                            (if still_failed st \<noteq> [] then Some (still_failed st) else Some []),
                          world_after = world st, storage_calls = calls st\<rparr>)
            | _ \<Rightarrow>
                Inr \<lparr>message = NotConnected, update_failed_uploads = None,
                     world_after = w, storage_calls = []\<rparr>))"

text \<open>
  The tool node merges \<open>state_update\<close> into the session state with \<open>dict.update\<close>: a
  key that the update does not hold keeps its value.
\<close>

definition merge_state_update :: "session_state \<Rightarrow> failed_item list option \<Rightarrow> session_state" where
  "merge_state_update s upd =
     (case upd of None \<Rightarrow> s | Some l \<Rightarrow> s\<lparr>st_failed_uploads := Some l\<rparr>)"

definition is_subtitle_item :: "failed_item \<Rightarrow> bool" where
  "is_subtitle_item item \<longleftrightarrow> item_type item = Some ''subtitle''"

text \<open>
  A store in which every file has the content \<open>hello\<close> and every write succeeds; the
  world is the list of the writes made.
\<close>

definition example_store :: "(string \<times> string) list storage_service" where
  "example_store =
     \<lparr>get_file_content = (\<lambda>path w. (Inr (Some ''hello''), w)),
      put_file_content = (\<lambda>path content w. (Inr True, w @ [(path, content)]))\<rparr>"

definition example_strm_entry :: failed_item where
  "example_strm_entry =
     \<lparr>item_type = Some ''strm'', item_source_path = Some ''/src/a.mkv'',
      item_target_path = Some ''/out/a.strm'', item_error = Some ''timeout''\<rparr>"

definition example_subtitle_entry :: failed_item where
  "example_subtitle_entry =
     \<lparr>item_type = Some ''subtitle'', item_source_path = Some ''/src/a.ass'',
      item_target_path = Some ''/out/a.ass'', item_error = Some ''timeout''\<rparr>"

section \<open>Alist storage client: \<open>services/alist_service.py\<close>\<close>

subsection \<open>The directory cache\<close>







subsection \<open>The server and the client's state\<close>




















subsection \<open>\<open>list_directory\<close>\<close>



















subsection \<open>Operations that change the store\<close>
















section \<open>Verified properties\<close>

subsection \<open>Naming\<close>

lemma set_rstrip: "set (rstrip P s) \<subseteq> set s"
  by (induction s) (auto simp: Let_def)

lemma set_strip: "set (strip P s) \<subseteq> set s"
proof -
  have "set (rstrip P (dropWhile P s)) \<subseteq> set (dropWhile P s)"
    by (rule set_rstrip)
  also have "\<dots> \<subseteq> set s"
    by (auto dest: set_dropWhileD)
  finally show ?thesis
    by (simp add: strip_def lstrip_def)
qed

lemma set_collapse_dots: "set (collapse_dots s) \<subseteq> set s"
  by (induction s rule: collapse_dots.induct) auto

lemma set_sub_trailing_bangs:
  "set (sub_trailing_bangs s) \<subseteq> set s"
proof (cases "s \<noteq> [] \<and> last s = c_newline")
  case True
  then have s: "s = butlast s @ [c_newline]"
    by (metis append_butlast_last_id)
  have "set (rstrip (\<lambda>c. c = c_bang) (butlast s)) \<subseteq> set (butlast s)"
    by (rule set_rstrip)
  then have "set (rstrip (\<lambda>c. c = c_bang) (butlast s) @ [c_newline]) \<subseteq> set (butlast s @ [c_newline])"
    by auto
  with True s show ?thesis
    by (simp add: sub_trailing_bangs_def)
next
  case False
  then show ?thesis
    using set_rstrip [of "\<lambda>c. c = c_bang" s] by (auto simp: sub_trailing_bangs_def)
qed

lemma dot_not_illegal: "c_dot \<notin> illegal_chars"
  by (simp add: illegal_chars_def c_dot_def c_backslash_def c_dquote_def)

lemma replace_illegal_clean: "c \<in> set (replace_illegal s) \<Longrightarrow> c \<notin> illegal_chars"
  using dot_not_illegal by (auto simp: replace_illegal_def split: if_splits)

lemma tilde_to_dash_clean:
  "\<forall>c \<in> set s. c \<notin> illegal_chars \<Longrightarrow> c \<in> set (tilde_to_dash s) \<Longrightarrow> c \<notin> illegal_chars"
  by (auto simp: tilde_to_dash_def illegal_chars_def c_backslash_def c_dquote_def
      split: if_splits)

lemma sanitize_set:
  "set (sanitize_filename name) \<subseteq> set (tilde_to_dash (replace_illegal name))"
proof -
  let ?a = "tilde_to_dash (replace_illegal name)"
  let ?b = "remove_apostrophes ?a"
  let ?c = "sub_trailing_bangs ?b"
  let ?d = "sub_leading_bangs ?c"
  let ?e = "collapse_dots ?d"
  have "set (strip is_dot_or_space ?e) \<subseteq> set ?e" by (rule set_strip)
  also have "\<dots> \<subseteq> set ?d" by (rule set_collapse_dots)
  also have "\<dots> \<subseteq> set ?c" by (auto simp: sub_leading_bangs_def dest: set_dropWhileD)
  also have "\<dots> \<subseteq> set ?b" by (rule set_sub_trailing_bangs)
  also have "\<dots> \<subseteq> set ?a" by (auto simp: remove_apostrophes_def)
  finally show ?thesis by (simp add: sanitize_filename_def Let_def)
qed

lemma collapse_dots_hd: "\<exists>r. collapse_dots (b # cs) = b # r"
proof (induction cs arbitrary: b)
  case (Cons c cs)
  then show ?case by (cases "b = c_dot \<and> c = c_dot") auto
qed simp

lemma collapse_dots_no_run: "\<not> has_dot_run (collapse_dots s)"
proof (induction s rule: collapse_dots.induct)
  case (1 a b cs)
  obtain r where r: "collapse_dots (b # cs) = b # r"
    using collapse_dots_hd by blast
  with 1 show ?case by (auto split: if_splits)
qed auto

lemma dropWhile_no_run: "\<not> has_dot_run s \<Longrightarrow> \<not> has_dot_run (dropWhile P s)"
proof (induction s)
  case (Cons c cs)
  then show ?case by (cases cs) auto
qed simp

lemma rstrip_hd: "rstrip P s \<noteq> [] \<Longrightarrow> hd (rstrip P s) = hd s"
  by (cases s) (auto simp: Let_def split: if_splits)

lemma rstrip_no_run: "\<not> has_dot_run s \<Longrightarrow> \<not> has_dot_run (rstrip P s)"
proof (induction s)
  case (Cons c cs)
  show ?case
  proof (cases cs)
    case Nil
    then show ?thesis by (simp add: Let_def)
  next
    case (Cons d ds)
    with Cons.prems have nr: "\<not> has_dot_run cs" and nd: "\<not> (c = c_dot \<and> d = c_dot)"
      by auto
    from Cons.IH nr have ih: "\<not> has_dot_run (rstrip P cs)" by simp
    show ?thesis
    proof (cases "rstrip P cs")
      case Nil
      then show ?thesis by (simp add: Let_def)
    next
      case (Cons e es)
      then have "e = d"
        using rstrip_hd [of P cs] \<open>cs = d # ds\<close> by simp
      with Cons ih nd show ?thesis by (simp add: Let_def)
    qed
  qed
qed simp

lemma rstrip_rev: "rstrip P s = rev (dropWhile P (rev s))"
proof (induction s)
  case (Cons c cs)
  have e: "rstrip P cs = [] \<longleftrightarrow> (\<forall>x \<in> set cs. P x)"
    by (simp add: Cons.IH dropWhile_eq_Nil_conv)
  show ?case
  proof (cases "\<forall>x \<in> set cs. P x")
    case True
    then have "dropWhile P (rev cs @ [c]) = dropWhile P [c]"
      by (intro dropWhile_append2) simp
    with True e show ?thesis by (simp add: Let_def)
  next
    case False
    then obtain x where "x \<in> set (rev cs)" "\<not> P x" by auto
    then have "dropWhile P (rev cs @ [c]) = dropWhile P (rev cs) @ [c]"
      by (rule dropWhile_append1)
    with False e Cons.IH show ?thesis by (simp add: Let_def)
  qed
qed simp

text \<open>
  Collapsing the runs of dots, read from the left: a dot is dropped when the character in
  front of it is a dot.
\<close>

lemma squeeze_step:
  "map fst (filter (\<lambda>(c, p). \<not> (c = c_dot \<and> p = Some c_dot)) (zip (b # cs) (Some a # map Some (b # cs))))
   = (if b = c_dot \<and> a = c_dot then [] else [b])
     @ map fst (filter (\<lambda>(c, p). \<not> (c = c_dot \<and> p = Some c_dot)) (zip cs (map Some (b # cs))))"
  by simp

lemma collapse_dots_squeeze_aux:
  "collapse_dots (a # cs)
   = a # map fst (filter (\<lambda>(c, p). \<not> (c = c_dot \<and> p = Some c_dot)) (zip cs (map Some (a # cs))))"
proof (induction cs arbitrary: a)
  case (Cons b cs)
  show ?case
    using Cons.IH [of b] by (cases "a = c_dot \<and> b = c_dot") auto
qed simp

lemma collapse_dots_squeeze:
  "collapse_dots s
   = map fst (filter (\<lambda>(c, p). \<not> (c = c_dot \<and> p = Some c_dot)) (zip s (None # map Some s)))"
proof (cases s)
  case (Cons a cs)
  then show ?thesis using collapse_dots_squeeze_aux [of a cs] by simp
qed simp

lemma has_dot_run_index:
  "has_dot_run s \<longleftrightarrow> (\<exists>i. Suc i < length s \<and> s ! i = c_dot \<and> s ! Suc i = c_dot)"
proof (induction s rule: has_dot_run.induct)
  case (1 a b cs)
  show ?case
  proof
    assume "has_dot_run (a # b # cs)"
    then consider "a = c_dot \<and> b = c_dot" | "has_dot_run (b # cs)" by auto
    then show "\<exists>i. Suc i < length (a # b # cs) \<and> (a # b # cs) ! i = c_dot
        \<and> (a # b # cs) ! Suc i = c_dot"
    proof cases
      case 1
      then show ?thesis by (intro exI [of _ 0]) simp
    next
      case 2
      with "1.IH" obtain i where "Suc i < length (b # cs)" "(b # cs) ! i = c_dot"
        "(b # cs) ! Suc i = c_dot" by blast
      then show ?thesis by (intro exI [of _ "Suc i"]) simp
    qed
  next
    assume "\<exists>i. Suc i < length (a # b # cs) \<and> (a # b # cs) ! i = c_dot
        \<and> (a # b # cs) ! Suc i = c_dot"
    then obtain i where i: "Suc i < length (a # b # cs)" "(a # b # cs) ! i = c_dot"
      "(a # b # cs) ! Suc i = c_dot" by blast
    show "has_dot_run (a # b # cs)"
    proof (cases i)
      case 0
      with i show ?thesis by simp
    next
      case (Suc j)
      with i have "Suc j < length (b # cs) \<and> (b # cs) ! j = c_dot \<and> (b # cs) ! Suc j = c_dot"
        by simp
      with "1.IH" show ?thesis by auto
    qed
  qed
qed simp_all

lemma replace_illegal_eq:
  "replace_illegal s =
     map (\<lambda>c. if c \<in> {CHR 0x5C, CHR ''/'', CHR '':'', CHR ''*'', CHR ''?'', CHR 0x22,
                        CHR ''<'', CHR ''>'', CHR ''|''} then CHR ''.'' else c) s"
  by (simp add: replace_illegal_def illegal_chars_def c_backslash_def c_dquote_def c_dot_def)

lemma remove_apostrophes_eq: "remove_apostrophes s = filter (\<lambda>c. c \<noteq> CHR 0x27) s"
  by (simp add: remove_apostrophes_def c_apostrophe_def)

lemma sub_trailing_bangs_eq:
  "sub_trailing_bangs s =
     (if s \<noteq> [] \<and> last s = CHR 0x0A
      then rev (dropWhile (\<lambda>c. c = CHR ''!'') (rev (butlast s))) @ [CHR 0x0A]
      else rev (dropWhile (\<lambda>c. c = CHR ''!'') (rev s)))"
  by (simp add: sub_trailing_bangs_def rstrip_rev c_newline_def c_bang_def)

lemma sub_leading_bangs_eq: "sub_leading_bangs s = dropWhile (\<lambda>c. c = CHR ''!'') s"
  by (simp add: sub_leading_bangs_def c_bang_def)

lemma collapse_dots_eq:
  "collapse_dots s
   = map fst (filter (\<lambda>(c, p). \<not> (c = CHR ''.'' \<and> p = Some (CHR ''.'')))
       (zip s (None # map Some s)))"
  using collapse_dots_squeeze [of s] by (simp add: c_dot_def)

lemma strip_dot_or_space_eq:
  "strip is_dot_or_space s =
     rev (dropWhile (\<lambda>c. c = CHR ''.'' \<or> c = CHR '' '')
       (rev (dropWhile (\<lambda>c. c = CHR ''.'' \<or> c = CHR '' '') s)))"
proof -
  have d: "is_dot_or_space = (\<lambda>c. c = CHR ''.'' \<or> c = CHR '' '')"
    by (rule ext) (simp add: is_dot_or_space_def c_dot_def c_space_def)
  show ?thesis
    by (simp add: strip_def lstrip_def rstrip_rev d)
qed

lemma sanitize_filename_steps:
  "sanitize_filename name =
    (let s1 = map (\<lambda>c. if c \<in> {CHR 0x5C, CHR ''/'', CHR '':'', CHR ''*'', CHR ''?'', CHR 0x22,
                               CHR ''<'', CHR ''>'', CHR ''|''} then CHR ''.'' else c) name;
         s2 = map (\<lambda>c. if c = CHR ''~'' then CHR ''-'' else c) s1;
         s3 = filter (\<lambda>c. c \<noteq> CHR 0x27) s2;
         s4 = (if s3 \<noteq> [] \<and> last s3 = CHR 0x0A
               then rev (dropWhile (\<lambda>c. c = CHR ''!'') (rev (butlast s3))) @ [CHR 0x0A]
               else rev (dropWhile (\<lambda>c. c = CHR ''!'') (rev s3)));
         s5 = dropWhile (\<lambda>c. c = CHR ''!'') s4;
         s6 = map fst (filter (\<lambda>(c, p). \<not> (c = CHR ''.'' \<and> p = Some (CHR ''.'')))
                (zip s5 (None # map Some s5)))
     in rev (dropWhile (\<lambda>c. c = CHR ''.'' \<or> c = CHR '' '')
          (rev (dropWhile (\<lambda>c. c = CHR ''.'' \<or> c = CHR '' '') s6))))"
  unfolding sanitize_filename_def
  by (simp only: Let_def replace_illegal_eq tilde_to_dash_def remove_apostrophes_eq
      sub_trailing_bangs_eq sub_leading_bangs_eq collapse_dots_eq strip_dot_or_space_eq)

lemma sanitize_filename_invariants:
  "(\<forall>c \<in> set (sanitize_filename name). c \<notin> illegal_chars)
   \<and> \<not> has_dot_run (sanitize_filename name)"
proof
  have "\<forall>c \<in> set (replace_illegal name). c \<notin> illegal_chars"
    using replace_illegal_clean by blast
  then have "\<forall>c \<in> set (tilde_to_dash (replace_illegal name)). c \<notin> illegal_chars"
    using tilde_to_dash_clean by blast
  with sanitize_set show "\<forall>c \<in> set (sanitize_filename name). c \<notin> illegal_chars"
    by blast
next
  show "\<not> has_dot_run (sanitize_filename name)"
    unfolding sanitize_filename_def Let_def strip_def lstrip_def
    by (intro rstrip_no_run dropWhile_no_run collapse_dots_no_run)
qed

text \<open>
  C8. For every input string, the sanitized filename is obtained by applying exactly these
  steps, in this order: (1) each of the characters backslash, slash, colon, asterisk,
  question mark, double quote, less-than, greater-than and vertical bar is replaced by a
  dot; (2) each tilde is replaced by a hyphen; (3) every apostrophe is removed; (4) the
  trailing run of exclamation marks is removed (the end of the string being, as for the
  anchor \<open>$\<close>, also the place in front of a newline that is the last character), then
  the leading run; (5) every run of two or more dots is collapsed to one dot; (6) leading
  and trailing dots and spaces are stripped. The result contains none of the nine
  characters of step (1) and no two consecutive dots.
\<close>

theorem sanitize_filename_clean:
  "sanitize_filename name =
    (let s1 = map (\<lambda>c. if c \<in> {CHR 0x5C, CHR ''/'', CHR '':'', CHR ''*'', CHR ''?'', CHR 0x22,
                               CHR ''<'', CHR ''>'', CHR ''|''} then CHR ''.'' else c) name;
         s2 = map (\<lambda>c. if c = CHR ''~'' then CHR ''-'' else c) s1;
         s3 = filter (\<lambda>c. c \<noteq> CHR 0x27) s2;
         s4 = (if s3 \<noteq> [] \<and> last s3 = CHR 0x0A
               then rev (dropWhile (\<lambda>c. c = CHR ''!'') (rev (butlast s3))) @ [CHR 0x0A]
               else rev (dropWhile (\<lambda>c. c = CHR ''!'') (rev s3)));
         s5 = dropWhile (\<lambda>c. c = CHR ''!'') s4;
         s6 = map fst (filter (\<lambda>(c, p). \<not> (c = CHR ''.'' \<and> p = Some (CHR ''.'')))
                (zip s5 (None # map Some s5)))
     in rev (dropWhile (\<lambda>c. c = CHR ''.'' \<or> c = CHR '' '')
          (rev (dropWhile (\<lambda>c. c = CHR ''.'' \<or> c = CHR '' '') s6))))
   \<and> (\<forall>c \<in> set (sanitize_filename name).
         c \<notin> {CHR 0x5C, CHR ''/'', CHR '':'', CHR ''*'', CHR ''?'', CHR 0x22,
               CHR ''<'', CHR ''>'', CHR ''|''})
   \<and> (\<forall>i. Suc i < length (sanitize_filename name) \<longrightarrow>
         \<not> (sanitize_filename name ! i = CHR ''.'' \<and> sanitize_filename name ! Suc i = CHR ''.''))"
proof (intro conjI)
  show "\<forall>c \<in> set (sanitize_filename name).
         c \<notin> {CHR 0x5C, CHR ''/'', CHR '':'', CHR ''*'', CHR ''?'', CHR 0x22,
               CHR ''<'', CHR ''>'', CHR ''|''}"
    using sanitize_filename_invariants [of name]
    by (simp add: illegal_chars_def c_backslash_def c_dquote_def)
  show "\<forall>i. Suc i < length (sanitize_filename name) \<longrightarrow>
         \<not> (sanitize_filename name ! i = CHR ''.'' \<and> sanitize_filename name ! Suc i = CHR ''.'')"
    using sanitize_filename_invariants [of name]
    by (simp add: has_dot_run_index c_dot_def)
qed (rule sanitize_filename_steps)

theorem sanitize_filename_clean_witness:
  "sanitize_filename (''!a?:b~c'' @ [CHR 0x27] @ ''d.. !'') = ''a.b-cd''
   \<and> sanitize_filename (''!!Code: Geass!! '' @ [CHR 0x22] @ ''R2''  @ [CHR 0x22] @ ''...!!'')
       = ''Code. Geass!! .R2''
   \<and> sanitize_filename ''a/b|c<d>e*f'' = ''a.b.c.d.e.f''
   \<and> sanitize_filename (''K-ON!'' @ [CHR 0x0A]) = ''K-ON'' @ [CHR 0x0A]
   \<and> set ''a.b-cd'' \<inter> {CHR 0x5C, CHR ''/'', CHR '':'', CHR ''*'', CHR ''?'', CHR 0x22,
               CHR ''<'', CHR ''>'', CHR ''|''} = {}"
  using sanitize_filename_clean [of "''!a?:b~c'' @ [CHR 0x27] @ ''d.. !''"]
    sanitize_filename_clean [of "''!!Code: Geass!! '' @ [CHR 0x22] @ ''R2''  @ [CHR 0x22] @ ''...!!''"]
    sanitize_filename_clean [of "''a/b|c<d>e*f''"]
    sanitize_filename_clean [of "''K-ON!'' @ [CHR 0x0A]"]
  by (simp add: Let_def)

subsection \<open>Episode resolver\<close>

lemma episode_loop_inv:
  "resolver_inv st s i \<Longrightarrow> \<exists>j. resolver_inv (episode_loop s i eps st) s j"
proof (induction eps arbitrary: st i)
  case Nil
  then show ?case by auto
next
  case (Cons ep eps)
  let ?c = "bs_cumulative st + 1"
  let ?E = "\<lparr>season = s, episode_in_season = i + 1,
             tmdb_episode = (case episode_number ep of Some n \<Rightarrow> n | None \<Rightarrow> i + 1),
             cumulative = ?c\<rparr>"
  let ?st = "\<lparr>bs_cumulative = ?c,
            bs_by_cumulative = (bs_by_cumulative st)(?c \<mapsto> ?E),
            bs_by_season_episode = (bs_by_season_episode st)((s, i + 1) \<mapsto> ?E)\<rparr>"
  from Cons.prems have c0: "0 \<le> bs_cumulative st"
    and d: "dom (bs_by_cumulative st) = {1..bs_cumulative st}"
    and old: "\<And>c E. bs_by_cumulative st c = Some E \<Longrightarrow>
        cumulative E = c \<and> bs_by_season_episode st (season E, episode_in_season E) = Some E \<and>
        (season E < s \<or> (season E = s \<and> episode_in_season E \<le> i))"
    by (auto simp: resolver_inv_def)
  have fresh: "bs_by_cumulative st ?c = None"
    using d by (metis atLeastAtMost_iff domIff add_le_same_cancel1 not_one_le_zero)
  have "resolver_inv ?st s (i + 1)"
    unfolding resolver_inv_def
  proof (intro conjI allI impI)
    show "0 \<le> bs_cumulative ?st" using c0 by simp
    show "dom (bs_by_cumulative ?st) = {1..bs_cumulative ?st}"
      using d c0 by auto
  next
    fix c E assume h: "bs_by_cumulative ?st c = Some E"
    show "cumulative E = c" using h old by (auto split: if_splits)
    show "bs_by_season_episode ?st (season E, episode_in_season E) = Some E"
      using h old by (cases "c = ?c") fastforce+
    show "season E < s \<or> season E = s \<and> episode_in_season E \<le> i + 1"
      using h old by (cases "c = ?c") fastforce+
  qed
  from Cons.IH [OF this] show ?case by (simp add: Let_def)
qed

lemma resolver_inv_mono:
  "resolver_inv st s i \<Longrightarrow> s < s' \<Longrightarrow> resolver_inv st s' i'"
  unfolding resolver_inv_def by force

lemma season_loop_inv:
  "resolver_inv st s i \<Longrightarrow> sorted_wrt (<) ss \<Longrightarrow> \<forall>x \<in> set ss. s < x
   \<Longrightarrow> \<exists>s' i'. resolver_inv (season_loop svc tid ss st) s' i'"
proof (induction ss arbitrary: st s i)
  case Nil
  then show ?case by auto
next
  case (Cons x rest)
  from Cons.prems have sx: "s < x" and srt: "sorted_wrt (<) rest"
    and gt: "\<forall>y \<in> set rest. x < y" and gt': "\<forall>y \<in> set rest. s < y"
    by auto
  have skip: "\<exists>s' i'. resolver_inv (season_loop svc tid rest st) s' i'"
    using Cons.IH [OF Cons.prems(1) srt gt'] .
  have run: "\<exists>s' i'. resolver_inv (season_loop svc tid rest (episode_loop x 0 eps st)) s' i'" for eps
  proof -
    have "resolver_inv st x 0"
      using resolver_inv_mono [OF Cons.prems(1) sx] .
    then obtain j where "resolver_inv (episode_loop x 0 eps st) x j"
      using episode_loop_inv by blast
    from Cons.IH [OF this srt gt] show ?thesis .
  qed
  show ?case
    using skip run by (simp split: option.splits)
qed

lemma resolver_inv_init:
  "resolver_inv \<lparr>bs_cumulative = 0, bs_by_cumulative = Map.empty,
     bs_by_season_episode = Map.empty\<rparr> 0 0"
  by (simp add: resolver_inv_def)

lemma upto_strict_sorted: "sorted_wrt (<) [a..b]"
  by (simp add: strict_sorted_iff)

text \<open>
  C1. For every mapping built by \<open>build_episode_mapping\<close>, whatever the season
  fetches return (failures and empty episode lists included), the keys of
  \<open>by_cumulative\<close> are exactly \<open>1..total_episodes\<close>, every cumulative number in that
  range has a row, and every row stored in \<open>by_cumulative\<close> is the row stored in
  \<open>by_season_episode\<close> under its own \<open>(season, episode_in_season)\<close>.
\<close>

theorem build_episode_mapping_roundtrip:
  assumes "build_episode_mapping tid svc = Some m"
  shows "dom (by_cumulative m) = {1..total_episodes m}
    \<and> (\<forall>c \<in> {1..total_episodes m}. \<exists>E. by_cumulative m c = Some E)
    \<and> (\<forall>c E. by_cumulative m c = Some E \<longrightarrow>
          by_season_episode m (season E, episode_in_season E) = Some E)"
proof -
  from assms obtain tv_info where tv: "get_tv_details svc tid = Some tv_info"
    by (auto simp: build_episode_mapping_def split: option.splits)
  define n where "n = (case seasons_count tv_info of Some k \<Rightarrow> k | None \<Rightarrow> 0)"
  define st where "st = season_loop svc tid [1..n]
     \<lparr>bs_cumulative = 0, bs_by_cumulative = Map.empty, bs_by_season_episode = Map.empty\<rparr>"
  have m: "by_cumulative m = bs_by_cumulative st" "by_season_episode m = bs_by_season_episode st"
    "total_episodes m = bs_cumulative st"
    using assms tv by (auto simp: build_episode_mapping_def Let_def n_def st_def)
  have "\<forall>x \<in> set [1..n]. 0 < x" by simp
  then obtain s i where inv: "resolver_inv st s i"
    unfolding st_def
    using season_loop_inv [OF resolver_inv_init upto_strict_sorted] by blast
  then have d: "dom (by_cumulative m) = {1..total_episodes m}"
    by (simp add: m resolver_inv_def)
  moreover have "\<forall>c \<in> {1..total_episodes m}. \<exists>E. by_cumulative m c = Some E"
    using d by blast
  moreover have "\<forall>c E. by_cumulative m c = Some E \<longrightarrow>
          by_season_episode m (season E, episode_in_season E) = Some E"
    using inv by (simp add: m resolver_inv_def)
  ultimately show ?thesis by blast
qed

lemma upto_1_3: "[1..3::int] = [1, 2, 3]"
  by (simp add: upto.simps)

lemma example_build:
  "\<exists>m. build_episode_mapping 7 example_service = Some m \<and> total_episodes m = 2
     \<and> by_cumulative m 1 = Some \<lparr>season = 2, episode_in_season = 1, tmdb_episode = 5, cumulative = 1\<rparr>
     \<and> by_cumulative m 2 = Some \<lparr>season = 2, episode_in_season = 2, tmdb_episode = 2, cumulative = 2\<rparr>"
  by (simp add: build_episode_mapping_def example_service_def upto_1_3 Let_def)

theorem build_episode_mapping_roundtrip_witness:
  "\<exists>m. build_episode_mapping 7 example_service = Some m \<and> total_episodes m = 2
     \<and> dom (by_cumulative m) = {1..2}
     \<and> by_season_episode m (2, 1)
         = Some \<lparr>season = 2, episode_in_season = 1, tmdb_episode = 5, cumulative = 1\<rparr>
     \<and> by_season_episode m (2, 2)
         = Some \<lparr>season = 2, episode_in_season = 2, tmdb_episode = 2, cumulative = 2\<rparr>"
proof -
  obtain m where m: "build_episode_mapping 7 example_service = Some m" "total_episodes m = 2"
    "by_cumulative m 1 = Some \<lparr>season = 2, episode_in_season = 1, tmdb_episode = 5, cumulative = 1\<rparr>"
    "by_cumulative m 2 = Some \<lparr>season = 2, episode_in_season = 2, tmdb_episode = 2, cumulative = 2\<rparr>"
    using example_build by blast
  from build_episode_mapping_roundtrip [OF m(1)] m(2,3,4) show ?thesis
    using m(1) by fastforce
qed

subsection \<open>Regular expressions\<close>











subsection \<open>Classifier\<close>






















subsection \<open>The play URL\<close>

lemma quote_safe_set: "always_safe \<union> set ENCODE_URI_SAFE = encodeURI_unescaped"
  unfolding always_safe_def ENCODE_URI_SAFE_def encodeURI_unescaped_def c_apostrophe_def
  by auto

lemma hex_digit_upto: "\<forall>d \<in> set [0..<16]. hex_digit d = ''0123456789ABCDEF'' ! d"
  by code_simp

lemma hex_digit_table: "d < 16 \<Longrightarrow> hex_digit d = ''0123456789ABCDEF'' ! d"
  using hex_digit_upto by simp

lemma fmt_02X_byte:
  assumes "n < 256"
  shows "fmt_02X n = [''0123456789ABCDEF'' ! (n div 16), ''0123456789ABCDEF'' ! (n mod 16)]"
proof -
  from assms have d: "n div 16 < 16" by simp
  have m: "n mod 16 < 16" by simp
  show ?thesis
  proof (cases "n < 16")
    case True
    then have "hex_nat n = [hex_digit n]" by (simp add: hex_nat.simps)
    with True show ?thesis
      by (simp add: fmt_02X_def hex_digit_table)
  next
    case False
    with d have "hex_nat n = [hex_digit (n div 16), hex_digit (n mod 16)]"
      by (simp add: hex_nat.simps [of n] hex_nat.simps [of "n div 16"])
    with d m show ?thesis
      by (simp add: fmt_02X_def hex_digit_table)
  qed
qed

lemma of_char_byte: "(of_char c :: nat) < 256"
  by (cases c) (simp add: horner_sum_bit_eq_take_bit)

lemma percent_hex:
  "percent c = [CHR ''%'', ''0123456789ABCDEF'' ! (of_char c div 16),
                ''0123456789ABCDEF'' ! (of_char c mod 16)]"
  by (simp add: percent_def fmt_02X_byte of_char_byte)

lemma quote_encodeURI: "quote s ENCODE_URI_SAFE = concat (map encodeURI_char s)"
proof -
  have "encodeURI_char = (\<lambda>c. if c \<in> encodeURI_unescaped then [c] else percent c)"
    by (rule ext) (simp add: encodeURI_char_def percent_hex)
  then show ?thesis by (simp add: quote_def quote_safe_set)
qed

lemma encodeURI_char_examples:
  "encodeURI_char CHR ''/'' = ''/''" "encodeURI_char CHR ''['' = ''%5B''"
  "encodeURI_char CHR '']'' = ''%5D''" "encodeURI_char CHR '' '' = ''%20''"
  "encodeURI_char CHR ''%'' = ''%25''" "encodeURI_char CHR ''{'' = ''%7B''"
  "encodeURI_char (CHR 0xE7) = ''%E7''"
  by (simp_all add: encodeURI_char_def encodeURI_unescaped_def)

lemma encodeURI_char_hex:
  assumes "c \<notin> encodeURI_unescaped"
  shows "\<exists>h l. h < 16 \<and> l < 16 \<and> of_char c = 16 * h + l
           \<and> encodeURI_char c = [CHR ''%'', ''0123456789ABCDEF'' ! h, ''0123456789ABCDEF'' ! l]"
proof (intro exI conjI)
  show "(of_char c :: nat) div 16 < 16"
    using of_char_byte [of c] by arith
  show "(of_char c :: nat) mod 16 < 16" by simp
  show "of_char c = 16 * ((of_char c :: nat) div 16) + of_char c mod 16" by simp
  show "encodeURI_char c = [CHR ''%'', ''0123456789ABCDEF'' ! (of_char c div 16),
      ''0123456789ABCDEF'' ! (of_char c mod 16)]"
    using assms by (simp add: encodeURI_char_def)
qed

lemma rstrip_no_trailing: "s = [] \<or> \<not> P (last s) \<Longrightarrow> rstrip P s = s"
proof (induction s)
  case Nil
  show ?case by simp
next
  case (Cons c cs)
  show ?case
  proof (cases cs)
    case Nil
    with Cons.prems show ?thesis by (simp add: Let_def)
  next
    case (Cons d ds)
    with Cons.prems Cons.IH have "rstrip P cs = cs" by simp
    with Cons show ?thesis by (simp add: Let_def)
  qed
qed

text \<open>
  C7. For every source file path, the content of the .strm file is the base URL (a base
  URL written with trailing slashes loses them first), then \<open>/d\<close> for Alist and
  \<open>/dav\<close> otherwise, then the path encoded character by character: every character
  that \<open>encodeURI\<close> leaves alone (letters, digits and
  \<open>- _ . ! ~ * ' ( ) ; / ? : @ & = + $ , #\<close>) is kept, and every other byte is replaced by
  a percent sign and its value as two upper-case hexadecimal digits; so a slash stays a
  slash, and brackets, spaces, percent signs and the bytes of characters beyond ASCII
  are encoded.
\<close>

theorem build_play_url_encodeURI:
  "build_play_url base_url path storage_type
     = rev (dropWhile (\<lambda>c. c = CHR ''/'') (rev base_url))
       @ (if storage_type = ''alist'' then ''/d'' else ''/dav'')
       @ concat (map encodeURI_char path)
   \<and> generate_strm_content \<lparr>sc_url = Some base_url, sc_type = Some storage_type\<rparr> path
     = build_play_url base_url path storage_type
   \<and> (base_url = [] \<or> last base_url \<noteq> CHR ''/'' \<longrightarrow>
        build_play_url base_url path storage_type
          = base_url @ (if storage_type = ''alist'' then ''/d'' else ''/dav'')
            @ concat (map encodeURI_char path))
   \<and> (\<forall>c \<in> set (''abcdefghijklmnopqrstuvwxyzABCDEFGHIJKLMNOPQRSTUVWXYZ0123456789''
                   @ ''-_.!~*'' @ [CHR 0x27] @ ''();/?:@&=+$,#''). encodeURI_char c = [c])
   \<and> (\<forall>c. c \<notin> set (''abcdefghijklmnopqrstuvwxyzABCDEFGHIJKLMNOPQRSTUVWXYZ0123456789''
                   @ ''-_.!~*'' @ [CHR 0x27] @ ''();/?:@&=+$,#'') \<longrightarrow>
         (\<exists>h l. h < 16 \<and> l < 16 \<and> of_char c = 16 * h + l
            \<and> encodeURI_char c
                = [CHR ''%'', ''0123456789ABCDEF'' ! h, ''0123456789ABCDEF'' ! l]))
   \<and> encodeURI_char CHR ''/'' = ''/'' \<and> encodeURI_char CHR ''['' = ''%5B''
   \<and> encodeURI_char CHR '']'' = ''%5D'' \<and> encodeURI_char CHR '' '' = ''%20''
   \<and> encodeURI_char CHR ''%'' = ''%25'' \<and> encodeURI_char CHR ''{'' = ''%7B''
   \<and> encodeURI_char (CHR 0xE7) = ''%E7''"
proof -
  have s: "set (''abcdefghijklmnopqrstuvwxyzABCDEFGHIJKLMNOPQRSTUVWXYZ0123456789''
                   @ ''-_.!~*'' @ [CHR 0x27] @ ''();/?:@&=+$,#'') = encodeURI_unescaped"
    unfolding encodeURI_unescaped_def by auto
  have u: "build_play_url base_url path storage_type
     = rev (dropWhile (\<lambda>c. c = CHR ''/'') (rev base_url))
       @ (if storage_type = ''alist'' then ''/d'' else ''/dav'')
       @ concat (map encodeURI_char path)"
    by (simp add: build_play_url_def Let_def quote_encodeURI rstrip_rev)
  have g: "generate_strm_content \<lparr>sc_url = Some base_url, sc_type = Some storage_type\<rparr> path
     = build_play_url base_url path storage_type"
    by (simp add: generate_strm_content_def)
  have n: "base_url = [] \<or> last base_url \<noteq> CHR ''/'' \<longrightarrow>
        build_play_url base_url path storage_type
          = base_url @ (if storage_type = ''alist'' then ''/d'' else ''/dav'')
            @ concat (map encodeURI_char path)"
  proof
    assume "base_url = [] \<or> last base_url \<noteq> CHR ''/''"
    then have "rstrip (\<lambda>c. c = CHR ''/'') base_url = base_url"
      by (rule rstrip_no_trailing)
    then show "build_play_url base_url path storage_type
          = base_url @ (if storage_type = ''alist'' then ''/d'' else ''/dav'')
            @ concat (map encodeURI_char path)"
      by (simp add: build_play_url_def Let_def quote_encodeURI)
  qed
  have k: "\<forall>c \<in> encodeURI_unescaped. encodeURI_char c = [c]"
    by (simp add: encodeURI_char_def)
  have e: "\<forall>c. c \<notin> encodeURI_unescaped \<longrightarrow>
         (\<exists>h l. h < 16 \<and> l < 16 \<and> of_char c = 16 * h + l
            \<and> encodeURI_char c
                = [CHR ''%'', ''0123456789ABCDEF'' ! h, ''0123456789ABCDEF'' ! l])"
    using encodeURI_char_hex by blast
  from u g n k e encodeURI_char_examples show ?thesis
    unfolding s by (intro conjI)
qed

lemma encode_path_example:
  "concat (map encodeURI_char ''/tv/My Show/[01].mkv'') = ''/tv/My%20Show/%5B01%5D.mkv''"
  "concat (map encodeURI_char ''/a%b{c}.mkv'') = ''/a%25b%7Bc%7D.mkv''"
  "concat (map encodeURI_char [CHR ''/'', CHR 0xE7, CHR 0xAC, CHR 0xAC, CHR ''1'']) = ''/%E7%AC%AC1''"
  by (simp_all add: encodeURI_char_def encodeURI_unescaped_def)

theorem build_play_url_encodeURI_witness:
  "generate_strm_content \<lparr>sc_url = Some ''http://nas:5244/'', sc_type = Some ''alist''\<rparr>
     ''/tv/My Show/[01].mkv'' = ''http://nas:5244/d/tv/My%20Show/%5B01%5D.mkv''
   \<and> generate_strm_content \<lparr>sc_url = Some ''http://nas:5244/'', sc_type = Some ''webdav''\<rparr>
     ''/tv/My Show/[01].mkv'' = ''http://nas:5244/dav/tv/My%20Show/%5B01%5D.mkv''
   \<and> last ''http://nas:5244'' \<noteq> CHR ''/''
   \<and> build_play_url ''http://nas:5244'' ''/tv/My Show/[01].mkv'' ''alist''
     = ''http://nas:5244/d/tv/My%20Show/%5B01%5D.mkv''
   \<and> build_play_url ''http://nas'' ''/a%b{c}.mkv'' ''alist'' = ''http://nas/d/a%25b%7Bc%7D.mkv''
   \<and> build_play_url ''http://nas//'' [CHR ''/'', CHR 0xE7, CHR 0xAC, CHR 0xAC, CHR ''1''] ''webdav''
     = ''http://nas/dav/%E7%AC%AC1''"
proof -
  have l: "''http://nas:5244'' = [] \<or> last ''http://nas:5244'' \<noteq> CHR ''/''"
    by simp
  from build_play_url_encodeURI [of "''http://nas:5244''" "''/tv/My Show/[01].mkv''" "''alist''"] l
  have c: "build_play_url ''http://nas:5244'' ''/tv/My Show/[01].mkv'' ''alist''
      = ''http://nas:5244'' @ (if ''alist'' = ''alist'' then ''/d'' else ''/dav'')
        @ concat (map encodeURI_char ''/tv/My Show/[01].mkv'')"
    by blast
  from build_play_url_encodeURI [of "''http://nas:5244/''" "''/tv/My Show/[01].mkv''" "''alist''"]
  have a: "generate_strm_content \<lparr>sc_url = Some ''http://nas:5244/'', sc_type = Some ''alist''\<rparr>
      ''/tv/My Show/[01].mkv''
      = rev (dropWhile (\<lambda>c. c = CHR ''/'') (rev ''http://nas:5244/''))
        @ (if ''alist'' = ''alist'' then ''/d'' else ''/dav'')
        @ concat (map encodeURI_char ''/tv/My Show/[01].mkv'')"
    by simp
  from build_play_url_encodeURI [of "''http://nas:5244/''" "''/tv/My Show/[01].mkv''" "''webdav''"]
  have w: "generate_strm_content \<lparr>sc_url = Some ''http://nas:5244/'', sc_type = Some ''webdav''\<rparr>
      ''/tv/My Show/[01].mkv''
      = rev (dropWhile (\<lambda>c. c = CHR ''/'') (rev ''http://nas:5244/''))
        @ (if ''webdav'' = ''alist'' then ''/d'' else ''/dav'')
        @ concat (map encodeURI_char ''/tv/My Show/[01].mkv'')"
    by simp
  note p = build_play_url_encodeURI [of "''http://nas''" "''/a%b{c}.mkv''" "''alist''",
      THEN conjunct1]
  note u = build_play_url_encodeURI [of "''http://nas//''"
      "[CHR ''/'', CHR 0xE7, CHR 0xAC, CHR 0xAC, CHR ''1'']" "''webdav''", THEN conjunct1]
  show ?thesis
    unfolding a w c p u encode_path_example by simp
qed

subsection \<open>Subtitle tasks\<close>














subsection \<open>Retrying failed uploads\<close>

text \<open>
  C9. Retrying when the session's \<open>failed_uploads\<close> is the empty list makes no call to
  either storage service, leaves the world as it is, and returns a response whose update
  does not touch \<open>failed_uploads\<close>, so that the session state after the merge is the
  state before, with \<open>failed_uploads\<close> still the empty list.
\<close>

theorem retry_empty_noop:
  assumes "st_failed_uploads s = Some []"
  shows "\<exists>r. retry_failed_uploads (Some s) source_service target_service w = Inr r
     \<and> message r = NothingToRetry \<and> storage_calls r = [] \<and> world_after r = w
     \<and> merge_state_update s (update_failed_uploads r) = s
     \<and> st_failed_uploads (merge_state_update s (update_failed_uploads r)) = Some []"
  using assms by (simp add: retry_failed_uploads_def merge_state_update_def)

theorem retry_empty_noop_witness:
  "\<exists>r. retry_failed_uploads (Some \<lparr>st_failed_uploads = Some []\<rparr>)
          (Some example_store) (Some example_store) [(''/out/x'', ''y'')] = Inr r
     \<and> storage_calls r = [] \<and> world_after r = [(''/out/x'', ''y'')]
     \<and> st_failed_uploads
          (merge_state_update \<lparr>st_failed_uploads = Some []\<rparr> (update_failed_uploads r)) = Some []"
proof -
  have "st_failed_uploads \<lparr>st_failed_uploads = Some []\<rparr> = Some []" by simp
  from retry_empty_noop [OF this, of "Some example_store" "Some example_store" "[(''/out/x'', ''y'')]"]
  show ?thesis by blast
qed

lemma retry_loop_filter:
  "retry_loop src tgt items st = retry_loop src tgt (filter is_subtitle_item items) st"
  by (induction items arbitrary: st)
    (auto simp: is_subtitle_item_def split: option.splits)

lemma retry_loop_none_subtitle:
  "\<forall>i \<in> set items. \<not> is_subtitle_item i \<Longrightarrow> retry_loop src tgt items st = Inr st"
  by (induction items) (auto simp: is_subtitle_item_def)

lemma failed_entry_subtitle: "is_subtitle_item (failed_entry source target e)"
  by (simp add: is_subtitle_item_def failed_entry_def)

lemma retry_one_still_failed:
  "\<forall>i \<in> set (still_failed st). is_subtitle_item i
   \<Longrightarrow> \<forall>i \<in> set (still_failed (retry_one src tgt source target st)). is_subtitle_item i"
  by (auto simp: retry_one_def record_failure_def Let_def failed_entry_subtitle
      split: prod.splits sum.splits)

lemma retry_loop_still_failed:
  "\<forall>i \<in> set (still_failed st). is_subtitle_item i \<Longrightarrow> retry_loop src tgt items st = Inr st'
   \<Longrightarrow> \<forall>i \<in> set (still_failed st'). is_subtitle_item i"
proof (induction items arbitrary: st)
  case Nil
  then show ?case by simp
next
  case (Cons item rest)
  show ?case
  proof (cases "item_type item \<noteq> Some ''subtitle''")
    case True
    with Cons show ?thesis by simp
  next
    case False
    with Cons.prems(2) obtain source target where
      "item_source_path item = Some source" "item_target_path item = Some target"
      and run: "retry_loop src tgt rest (retry_one src tgt source target st) = Inr st'"
      by (auto split: option.splits)
    from Cons.IH [OF retry_one_still_failed [OF Cons.prems(1)] run] show ?thesis .
  qed
qed

text \<open>
  C10. In a retry pass (both services connected, \<open>failed_uploads\<close> not empty), the
  entries whose type is not \<open>subtitle\<close> are passed over: the loop does exactly what it
  does on the list without them, so no call is made for them; every entry written back
  to \<open>failed_uploads\<close> has the type \<open>subtitle\<close>, so they are dropped; and when no entry
  is a subtitle, the pass makes no storage call, reports 0 successes and 0 failures, and
  sets \<open>failed_uploads\<close> to the empty list.
\<close>

theorem retry_drops_non_subtitle:
  assumes "st_failed_uploads s = Some items" and "items \<noteq> []"
  shows "retry_loop src tgt items st0 = retry_loop src tgt (filter is_subtitle_item items) st0
    \<and> (\<forall>r. retry_failed_uploads (Some s) (Some src) (Some tgt) w = Inr r \<longrightarrow>
          (\<exists>l. update_failed_uploads r = Some l \<and> (\<forall>i \<in> set l. is_subtitle_item i)))
    \<and> ((\<forall>i \<in> set items. \<not> is_subtitle_item i) \<longrightarrow>
          retry_failed_uploads (Some s) (Some src) (Some tgt) w
            = Inr \<lparr>message = RetryReport (length items) 0 0 [], update_failed_uploads = Some [],
                   world_after = w, storage_calls = []\<rparr>)"
proof (intro conjI allI impI)
  show "retry_loop src tgt items st0 = retry_loop src tgt (filter is_subtitle_item items) st0"
    by (rule retry_loop_filter)
next
  fix r
  assume r: "retry_failed_uploads (Some s) (Some src) (Some tgt) w = Inr r"
  let ?st0 = "\<lparr>world = w, calls = [], success_count = 0, error_count = 0,
                still_failed = []\<rparr>"
  from r assms obtain st where run: "retry_loop src tgt items ?st0 = Inr st"
    and upd: "update_failed_uploads r
       = (if still_failed st \<noteq> [] then Some (still_failed st) else Some [])"
    by (auto simp: retry_failed_uploads_def split: sum.splits)
  have "\<forall>i \<in> set (still_failed ?st0). is_subtitle_item i" by simp
  from retry_loop_still_failed [OF this run]
  have "\<forall>i \<in> set (still_failed st). is_subtitle_item i" .
  with upd show "\<exists>l. update_failed_uploads r = Some l \<and> (\<forall>i \<in> set l. is_subtitle_item i)"
    by (cases "still_failed st = []") auto
next
  assume "\<forall>i \<in> set items. \<not> is_subtitle_item i"
  then show "retry_failed_uploads (Some s) (Some src) (Some tgt) w
            = Inr \<lparr>message = RetryReport (length items) 0 0 [], update_failed_uploads = Some [],
                   world_after = w, storage_calls = []\<rparr>"
    using assms by (simp add: retry_failed_uploads_def retry_loop_none_subtitle)
qed

lemma retry_mixed_example:
  "retry_failed_uploads
      (Some \<lparr>st_failed_uploads = Some [example_strm_entry, example_subtitle_entry]\<rparr>)
      (Some example_store) (Some example_store) []
     = Inr \<lparr>message = RetryReport 2 1 0 [], update_failed_uploads = Some [],
            world_after = [(''/out/a.ass'', ''hello'')],
            storage_calls = [GetContent ''/src/a.ass'', PutContent ''/out/a.ass'' ''hello'']\<rparr>"
  by (simp add: retry_failed_uploads_def example_strm_entry_def example_subtitle_entry_def
      retry_one_def example_store_def)

theorem retry_drops_non_subtitle_witness:
  "retry_failed_uploads (Some \<lparr>st_failed_uploads = Some [example_strm_entry]\<rparr>)
      (Some example_store) (Some example_store) []
     = Inr \<lparr>message = RetryReport 1 0 0 [], update_failed_uploads = Some [],
            world_after = [], storage_calls = []\<rparr>
   \<and> st_failed_uploads (merge_state_update \<lparr>st_failed_uploads = Some [example_strm_entry]\<rparr>
        (Some [])) = Some []
   \<and> storage_calls (projr (retry_failed_uploads
        (Some \<lparr>st_failed_uploads = Some [example_strm_entry, example_subtitle_entry]\<rparr>)
        (Some example_store) (Some example_store) []))
     = [GetContent ''/src/a.ass'', PutContent ''/out/a.ass'' ''hello'']"
proof -
  have a: "st_failed_uploads \<lparr>st_failed_uploads = Some [example_strm_entry]\<rparr>
      = Some [example_strm_entry]" by simp
  have b: "[example_strm_entry] \<noteq> []" by simp
  have c: "\<forall>i \<in> set [example_strm_entry]. \<not> is_subtitle_item i"
    by (simp add: is_subtitle_item_def example_strm_entry_def)
  from retry_drops_non_subtitle [OF a b, of example_store example_store _ "[]"] c
  show ?thesis by (simp add: merge_state_update_def retry_mixed_example)
qed

subsection \<open>Listing with retries\<close>






















subsection \<open>The directory cache and the operations that change the store\<close>
























end
